theory Spec2Isabelle
  imports Main "HOL-Library.AList"
begin

section \<open>Python values seen by the injector\<close>

text \<open>
  A class object is identified by \<open>type_id\<close> (two classes with the same \<open>__name__\<close> are
  different objects), and carries what the injector reads from it: its \<open>__name__\<close>, the
  proper ancestors of its \<open>__mro__\<close>, its metaclass (\<open>None\<close> for the builtin \<open>type\<close>) and
  \<open>inspect.getfullargspec(cls.__init__).annotations.items()\<close> in dictionary order.
  An annotation is a forward-declared name, a class object, or something else.
\<close>

datatype pytype =
    PyType (type_id: nat) (type_name: string) (ancestors: "pytype list")
           (metaclass: "pytype option") (init_annotations: "(string \<times> annot) list")
and annot = AStr string | AType pytype | AOther

text \<open>
  A value is an instance (its identity, its class and the keyword arguments its constructor
  received) or a class object. Constructor bodies are user code the injector does not
  see: a call \<open>implementation(**kwargs)\<close> is modelled as the allocation of a fresh instance
  that records its arguments.
\<close>

datatype pyval =
    Inst (obj_id: nat) (obj_class: pytype) (obj_kwargs: "(string \<times> pyval) list")
  | Cls pytype

text \<open>The exceptions of \<open>tadi.py\<close>, with the arguments their messages are formatted from,
  and the two builtin exceptions the methods raise.\<close>

datatype error =
    CyclicDependencyError string "string list"
  | ImplementedError string
  | ImplementationInterfaceMismatchError string string
  | UnimplementedError string
  | TypeError
  | ValueError

definition builtin_object :: pytype where
  "builtin_object = PyType 0 ''object'' [] None []"

definition builtin_type :: pytype where
  "builtin_type = PyType 1 ''type'' [builtin_object] None []"

definition mro :: "pytype \<Rightarrow> pytype list" where
  "mro c = c # ancestors c"

definition issubclass :: "pytype \<Rightarrow> pytype \<Rightarrow> bool" where
  "issubclass c i = (i \<in> set (mro c))"

fun class_of :: "pyval \<Rightarrow> pytype" where
  "class_of (Inst n c kw) = c"
| "class_of (Cls t) = (case metaclass t of None \<Rightarrow> builtin_type | Some m \<Rightarrow> m)"

definition isinstance :: "pyval \<Rightarrow> pytype \<Rightarrow> bool" where
  "isinstance v i = issubclass (class_of v) i"

section \<open>The Injector object\<close>

text \<open>
  A method that assigns to a field returns the outcome together with the injector after the
  call, also when it raises: \<open>(Inl e, self')\<close> is the exception \<open>e\<close> leaving the object in
  state \<open>self'\<close>. The two lookups assign nothing and return the outcome only. They are
  the methods \<open>Injector.implementation\<close> and \<open>Injector.interface\<close>, named here with
  their class because the other methods have parameters of these names;
  \<open>register_interface\<close> is \<open>_register_interface\<close>. \<open>first_match\<close> is the loop of
  \<open>implementation\<close> over one table: the value of the first pair whose key is the
  interface.
\<close>

record injector =
  interfaces :: "string \<rightharpoonup> pytype"
  scoped_services :: "(pytype \<times> pytype) list"
  singleton_services :: "(pytype \<times> pyval) list"

definition new_injector :: injector where
  "new_injector = \<lparr>interfaces = Map.empty, scoped_services = [], singleton_services = []\<rparr>"

fun first_match :: "pytype \<Rightarrow> (pytype \<times> 'v) list \<Rightarrow> 'v option" where
  "first_match interface [] = None"
| "first_match interface ((k, v) # rest) =
     (if k = interface then Some v else first_match interface rest)"

definition injector_implementation :: "injector \<Rightarrow> pytype \<Rightarrow> error + pyval" where
  "injector_implementation self interface =
     (case first_match interface (scoped_services self) of
        Some tv \<Rightarrow> Inr (Cls tv)
      | None \<Rightarrow>
          (case first_match interface (singleton_services self) of
             Some av \<Rightarrow> Inr av
           | None \<Rightarrow> Inl (UnimplementedError (type_name interface))))"

fun injector_interface :: "injector \<Rightarrow> annot \<Rightarrow> error + pytype" where
  "injector_interface self AOther = Inl TypeError"
| "injector_interface self (AType t) =
     (case interfaces self (type_name t) of
        Some i \<Rightarrow> Inr i
      | None \<Rightarrow> Inl (UnimplementedError (type_name t)))"
| "injector_interface self (AStr interface_id) =
     (case interfaces self interface_id of
        Some i \<Rightarrow> Inr i
      | None \<Rightarrow> Inl (UnimplementedError interface_id))"

definition register_interface :: "injector \<Rightarrow> pytype \<Rightarrow> (error + unit) \<times> injector" where
  "register_interface self interface =
     (if type_name interface \<in> dom (interfaces self)
      then (Inl (ImplementedError (type_name interface)), self)
      else (Inr (), self\<lparr>interfaces := (interfaces self)(type_name interface \<mapsto> interface)\<rparr>))"

definition register_scoped :: "injector \<Rightarrow> pytype \<Rightarrow> pytype \<Rightarrow> (error + unit) \<times> injector" where
  "register_scoped self interface implementation =
     (if \<not> issubclass implementation interface
      then (Inl (ImplementationInterfaceMismatchError
                   (type_name implementation) (type_name interface)), self)
      else (case register_interface self interface of
              (Inl e, self') \<Rightarrow> (Inl e, self')
            | (Inr u, self') \<Rightarrow>
                (Inr (), self'\<lparr>scoped_services :=
                                 scoped_services self' @ [(interface, implementation)]\<rparr>)))"

definition register_singleton :: "injector \<Rightarrow> pytype \<Rightarrow> pyval \<Rightarrow> (error + unit) \<times> injector" where
  "register_singleton self interface singleton =
     (if \<not> isinstance singleton interface
      then (Inl (ImplementationInterfaceMismatchError
                   (type_name (class_of singleton)) (type_name interface)), self)
      else (case register_interface self interface of
              (Inl e, self') \<Rightarrow> (Inl e, self')
            | (Inr u, self') \<Rightarrow>
                (Inr (), self'\<lparr>singleton_services :=
                                 singleton_services self' @ [(interface, singleton)]\<rparr>)))"

subsection \<open>Sequences of registrations\<close>

text \<open>
  A caller configures an injector by a sequence of \<open>register_scoped\<close> and
  \<open>register_singleton\<close> calls; a call that raises leaves the injector as the method left it
  and the caller goes on.
\<close>

datatype registration =
    RegisterScoped pytype pytype
  | RegisterSingleton pytype pyval

fun register :: "injector \<Rightarrow> registration \<Rightarrow> (error + unit) \<times> injector" where
  "register self (RegisterScoped interface implementation) =
     register_scoped self interface implementation"
| "register self (RegisterSingleton interface singleton) =
     register_singleton self interface singleton"

fun registrations :: "injector \<Rightarrow> registration list \<Rightarrow> injector" where
  "registrations self [] = self"
| "registrations self (r # rs) = registrations (snd (register self r)) rs"

fun registered_interface :: "registration \<Rightarrow> pytype" where
  "registered_interface (RegisterScoped interface implementation) = interface"
| "registered_interface (RegisterSingleton interface singleton) = interface"

fun conforms :: "registration \<Rightarrow> bool" where
  "conforms (RegisterScoped interface implementation) = issubclass implementation interface"
| "conforms (RegisterSingleton interface singleton) = isinstance singleton interface"

definition scoped_names :: "injector \<Rightarrow> string list" where
  "scoped_names self = map (\<lambda>kv. type_name (fst kv)) (scoped_services self)"

definition singleton_names :: "injector \<Rightarrow> string list" where
  "singleton_names self = map (\<lambda>kv. type_name (fst kv)) (singleton_services self)"

definition registry_consistent :: "injector \<Rightarrow> bool" where
  "registry_consistent self \<longleftrightarrow>
     distinct (scoped_names self) \<and> distinct (singleton_names self) \<and>
     set (scoped_names self) \<inter> set (singleton_names self) = {} \<and>
     dom (interfaces self) = set (scoped_names self) \<union> set (singleton_names self)"

section \<open>Resolution\<close>

text \<open>
  \<open>resolve\<close> runs on a heap: the injector object, the identity of the next object to be
  allocated and the log of the classes instantiated so far. The result carries the heap
  after the call, also when an exception is raised. \<open>resolve_kwargs\<close> is the \<open>for\<close> loop
  of \<open>resolve\<close> over the remaining annotations, with \<open>kwargs\<close> as built so far.
  The test \<open>isinstance(implementation, type)\<close> holds of class objects and of nothing else,
  and the optional \<open>stack\<close> is \<open>None\<close> until the first descent.
\<close>

record heap =
  injector_obj :: injector
  next_id :: nat
  constructed :: "pytype list"

definition instantiate :: "heap \<Rightarrow> pytype \<Rightarrow> (string \<times> pyval) list \<Rightarrow> (error + pyval) \<times> heap" where
  "instantiate h impl kwargs =
     (Inr (Inst (next_id h) impl kwargs),
      h\<lparr>next_id := Suc (next_id h), constructed := constructed h @ [impl]\<rparr>)"

definition in_stack :: "pytype \<Rightarrow> pytype list option \<Rightarrow> bool" where
  "in_stack interface stack = (case stack of None \<Rightarrow> False | Some s \<Rightarrow> interface \<in> set s)"

definition push_stack :: "pytype list option \<Rightarrow> pytype \<Rightarrow> pytype list option" where
  "push_stack stack interface = (case stack of None \<Rightarrow> Some [interface] | Some s \<Rightarrow> Some (s @ [interface]))"

function resolve :: "heap \<Rightarrow> pytype \<Rightarrow> pytype list option \<Rightarrow> (error + pyval) \<times> heap"
  and resolve_kwargs :: "heap \<Rightarrow> pytype \<Rightarrow> pytype list option \<Rightarrow> (string \<times> annot) list
                            \<Rightarrow> (string \<times> pyval) list \<Rightarrow> (error + (string \<times> pyval) list) \<times> heap"
where
  "resolve h interface stack =
     (case injector_implementation (injector_obj h) interface of
        Inl e \<Rightarrow> (Inl e, h)
      | Inr (Inst n c kw) \<Rightarrow> (Inr (Inst n c kw), h)
      | Inr (Cls impl) \<Rightarrow>
          (if in_stack interface stack
           then (Inl (CyclicDependencyError (type_name interface)
                        (map type_name (the stack))), h)
           else (case resolve_kwargs h interface stack (init_annotations impl) [] of
                   (Inl e, h') \<Rightarrow> (Inl e, h')
                 | (Inr kwargs, h') \<Rightarrow> instantiate h' impl kwargs)))"
| "resolve_kwargs h interface stack [] kwargs = (Inr kwargs, h)"
| "resolve_kwargs h interface stack ((parametername, parametertype) # rest) kwargs =
     (if parametername = ''return''
      then resolve_kwargs h interface stack rest kwargs
      else (case injector_interface (injector_obj h) parametertype of
              Inl e \<Rightarrow> (Inl e, h)
            | Inr dep \<Rightarrow>
                (case resolve h dep (push_stack stack interface) of
                   (Inl e, h') \<Rightarrow> (Inl e, h')
                 | (Inr v, h') \<Rightarrow>
                     resolve_kwargs h' interface stack rest
                       (AList.update parametername v kwargs))))"
  by pat_completeness auto

subsection \<open>resolve_callable\<close>

text \<open>
  The argument of \<open>resolve_callable\<close> is any value: either it is not callable, or it is a
  callable with its annotations and its body, user code that receives the keyword arguments
  and runs on the heap. The returned \<open>lambda: fn(**kwargs)\<close> is a closure over the body and
  the dictionary built by the loop; calling it applies the body to that dictionary.
\<close>

datatype 'r pyarg =
    NotCallable
  | Callable "(string \<times> annot) list" "(string \<times> pyval) list \<Rightarrow> heap \<Rightarrow> 'r \<times> heap"

datatype 'r closure =
    Lambda (closure_fn: "(string \<times> pyval) list \<Rightarrow> heap \<Rightarrow> 'r \<times> heap")
           (closure_kwargs: "(string \<times> pyval) list")

fun callable_kwargs :: "heap \<Rightarrow> (string \<times> annot) list \<Rightarrow> (string \<times> pyval) list
                           \<Rightarrow> (error + (string \<times> pyval) list) \<times> heap" where
  "callable_kwargs h [] kwargs = (Inr kwargs, h)"
| "callable_kwargs h ((parametername, parametertype) # rest) kwargs =
     (if parametername = ''return''
      then callable_kwargs h rest kwargs
      else (case injector_interface (injector_obj h) parametertype of
              Inl e \<Rightarrow> (Inl e, h)
            | Inr dep \<Rightarrow>
                (case resolve h dep None of
                   (Inl e, h') \<Rightarrow> (Inl e, h')
                 | (Inr v, h') \<Rightarrow>
                     callable_kwargs h' rest (AList.update parametername v kwargs))))"

definition resolve_callable :: "heap \<Rightarrow> 'r pyarg \<Rightarrow> (error + 'r closure) \<times> heap" where
  "resolve_callable h fn =
     (case fn of
        NotCallable \<Rightarrow> (Inl ValueError, h)
      | Callable annotations body \<Rightarrow>
          (case callable_kwargs h annotations [] of
             (Inl e, h') \<Rightarrow> (Inl e, h')
           | (Inr kwargs, h') \<Rightarrow> (Inr (Lambda body kwargs), h')))"

fun call_closure :: "'r closure \<Rightarrow> heap \<Rightarrow> 'r \<times> heap" where
  "call_closure (Lambda fn kwargs) h = fn kwargs h"

section \<open>The classes of the repository's tests\<close>

definition Config :: pytype where
  "Config = PyType 2 ''Config'' [builtin_object] None [(''return'', AOther)]"

definition SimpleOneService :: pytype where
  "SimpleOneService = PyType 3 ''SimpleOneService'' [builtin_object] None []"

definition SimpleOneServiceImpl :: pytype where
  "SimpleOneServiceImpl =
     PyType 4 ''SimpleOneServiceImpl'' [SimpleOneService, builtin_object] None []"

definition SimpleTwoService :: pytype where
  "SimpleTwoService = PyType 5 ''SimpleTwoService'' [builtin_object] None []"

definition SimpleTwoServiceImpl :: pytype where
  "SimpleTwoServiceImpl =
     PyType 6 ''SimpleTwoServiceImpl'' [SimpleTwoService, builtin_object] None []"

definition ComplexService :: pytype where
  "ComplexService = PyType 7 ''ComplexService'' [builtin_object] None []"

definition ComplexServiceImpl :: pytype where
  "ComplexServiceImpl =
     PyType 8 ''ComplexServiceImpl'' [ComplexService, builtin_object] None
       [(''simpleone_service'', AStr ''SimpleOneService''),
        (''simpletwo_service'', AStr ''SimpleTwoService''),
        (''return'', AOther)]"

definition CyclicService :: pytype where
  "CyclicService = PyType 9 ''CyclicService'' [builtin_object] None []"

definition CyclicServiceImpl :: pytype where
  "CyclicServiceImpl =
     PyType 10 ''CyclicServiceImpl'' [CyclicService, builtin_object] None
       [(''cyclic_service'', AStr ''CyclicService''), (''return'', AOther)]"

definition a_config :: pyval where
  "a_config = Inst 0 Config []"

definition complex_injector :: injector where
  "complex_injector =
     registrations new_injector
       [RegisterScoped ComplexService ComplexServiceImpl,
        RegisterScoped SimpleOneService SimpleOneServiceImpl,
        RegisterScoped SimpleTwoService SimpleTwoServiceImpl]"

definition cyclic_injector :: injector where
  "cyclic_injector = registrations new_injector [RegisterScoped CyclicService CyclicServiceImpl]"

text \<open>Only \<open>ComplexService\<close> is registered, as in the second part of
  \<open>testUnimplementedError\<close>.\<close>

definition partial_injector :: injector where
  "partial_injector = registrations new_injector [RegisterScoped ComplexService ComplexServiceImpl]"

text \<open>A service whose constructor takes an unregistered helper before the service itself.\<close>

definition LoopService :: pytype where
  "LoopService = PyType 11 ''LoopService'' [builtin_object] None []"

definition LoopServiceImpl :: pytype where
  "LoopServiceImpl =
     PyType 12 ''LoopServiceImpl'' [LoopService, builtin_object] None
       [(''helper_service'', AStr ''HelperService''),
        (''loop_service'', AStr ''LoopService''), (''return'', AOther)]"

definition loop_injector :: injector where
  "loop_injector = registrations new_injector [RegisterScoped LoopService LoopServiceImpl]"

text \<open>A diamond: \<open>A\<close> takes \<open>B\<close> and \<open>C\<close>, each of which takes \<open>D\<close>.\<close>

definition ServiceA :: pytype where
  "ServiceA = PyType 13 ''ServiceA'' [builtin_object] None []"

definition ServiceAImpl :: pytype where
  "ServiceAImpl =
     PyType 14 ''ServiceAImpl'' [ServiceA, builtin_object] None
       [(''service_b'', AStr ''ServiceB''), (''service_c'', AStr ''ServiceC''),
        (''return'', AOther)]"

definition ServiceB :: pytype where
  "ServiceB = PyType 15 ''ServiceB'' [builtin_object] None []"

definition ServiceBImpl :: pytype where
  "ServiceBImpl =
     PyType 16 ''ServiceBImpl'' [ServiceB, builtin_object] None
       [(''service_d'', AStr ''ServiceD''), (''return'', AOther)]"

definition ServiceC :: pytype where
  "ServiceC = PyType 17 ''ServiceC'' [builtin_object] None []"

definition ServiceCImpl :: pytype where
  "ServiceCImpl =
     PyType 18 ''ServiceCImpl'' [ServiceC, builtin_object] None
       [(''service_d'', AStr ''ServiceD''), (''return'', AOther)]"

definition ServiceD :: pytype where
  "ServiceD = PyType 19 ''ServiceD'' [builtin_object] None []"

definition ServiceDImpl :: pytype where
  "ServiceDImpl = PyType 20 ''ServiceDImpl'' [ServiceD, builtin_object] None []"

definition diamond_injector :: injector where
  "diamond_injector =
     registrations new_injector
       [RegisterScoped ServiceA ServiceAImpl, RegisterScoped ServiceB ServiceBImpl,
        RegisterScoped ServiceC ServiceCImpl, RegisterScoped ServiceD ServiceDImpl]"

text \<open>The same diamond, with an implementation of \<open>D\<close> that takes an unregistered
  service.\<close>

definition ServiceDNeedyImpl :: pytype where
  "ServiceDNeedyImpl =
     PyType 21 ''ServiceDNeedyImpl'' [ServiceD, builtin_object] None
       [(''service_e'', AStr ''ServiceE''), (''return'', AOther)]"

definition needy_diamond_injector :: injector where
  "needy_diamond_injector =
     registrations new_injector
       [RegisterScoped ServiceA ServiceAImpl, RegisterScoped ServiceB ServiceBImpl,
        RegisterScoped ServiceC ServiceCImpl, RegisterScoped ServiceD ServiceDNeedyImpl]"


definition heap_of :: "injector \<Rightarrow> heap" where
  "heap_of self = \<lparr>injector_obj = self, next_id = 1, constructed = []\<rparr>"

section \<open>Notions used in the statements\<close>

text \<open>The interfaces that have a binding in either table, and the stack as a set.\<close>

definition bound_interfaces :: "injector \<Rightarrow> pytype set" where
  "bound_interfaces self = fst ` set (scoped_services self) \<union> fst ` set (singleton_services self)"

definition stack_set :: "pytype list option \<Rightarrow> pytype set" where
  "stack_set stack = (case stack of None \<Rightarrow> {} | Some s \<Rightarrow> set s)"


text \<open>
  Two values are equal by value when they differ in object identities only: \<open>shape\<close>
  forgets the identities. \<open>same_growth\<close> says that two runs instantiated the same classes
  in the same order and allocated as many objects.
\<close>

primrec shape :: "pyval \<Rightarrow> pyval" where
  "shape (Inst n c kw) = Inst 0 c (map (map_prod (\<lambda>p. p) shape) kw)"
| "shape (Cls t) = Cls t"

definition shapes :: "(string \<times> pyval) list \<Rightarrow> (string \<times> pyval) list" where
  "shapes kw = map (map_prod (\<lambda>p. p) shape) kw"

definition same_growth :: "heap \<Rightarrow> heap \<Rightarrow> heap \<Rightarrow> heap \<Rightarrow> bool" where
  "same_growth h h' g g' \<longleftrightarrow>
     (\<exists>cs. constructed h' = constructed h @ cs \<and> constructed g' = constructed g @ cs \<and>
           next_id h' = next_id h + length cs \<and> next_id g' = next_id g + length cs)"

text \<open>The heap after \<open>n\<close> successive calls of a closure.\<close>

fun call_repeatedly :: "'r closure \<Rightarrow> nat \<Rightarrow> heap \<Rightarrow> heap" where
  "call_repeatedly c 0 g = g"
| "call_repeatedly c (Suc n) g = call_repeatedly c n (snd (call_closure c g))"

text \<open>
  The dependency graph that \<open>resolve\<close> walks. The constructor parameters of a class are its
  annotations without \<open>return\<close>. An interface with a class-valued binding requires, for
  each constructor parameter of that class, what the injector looks the declared type up to:
  an interface, or the exception of the lookup. A dependency path is a chain of interfaces
  in which each requires the next.
\<close>

definition constructor_parameters :: "pytype \<Rightarrow> (string \<times> annot) list" where
  "constructor_parameters t = filter (\<lambda>pa. fst pa \<noteq> ''return'') (init_annotations t)"

definition required :: "injector \<Rightarrow> pytype \<Rightarrow> (error + pytype) list" where
  "required self i =
     (case injector_implementation self i of
        Inr (Cls t) \<Rightarrow> map (\<lambda>pa. injector_interface self (snd pa)) (constructor_parameters t)
      | _ \<Rightarrow> [])"


definition stack_list :: "pytype list option \<Rightarrow> pytype list" where
  "stack_list stack = (case stack of None \<Rightarrow> [] | Some s \<Rightarrow> s)"





section \<open>Termination of resolve\<close>

text \<open>
  Every recursive descent pushes an interface that has a binding and is not on the stack, so
  the number of bound interfaces outside the stack decreases. The injector on the heap is
  read again after each recursive call, so termination needs that a call leaves it as it
  was.
\<close>

lemma first_match_Some_key: "first_match i xs = Some v \<Longrightarrow> i \<in> fst ` set xs"
  by (induction xs) (auto split: if_splits)

lemma implementation_Inr_bound:
  "injector_implementation self i = Inr v \<Longrightarrow> i \<in> bound_interfaces self"
  by (auto simp: injector_implementation_def bound_interfaces_def
           split: option.splits dest: first_match_Some_key)

lemma resolve_frame_dom:
  "resolve_resolve_kwargs_dom (Inl (h, i, st)) \<Longrightarrow> injector_obj (snd (resolve h i st)) = injector_obj h"
  "resolve_resolve_kwargs_dom (Inr (h, i, st, anns, kw)) \<Longrightarrow>
     injector_obj (snd (resolve_kwargs h i st anns kw)) = injector_obj h"
proof (induction h i st and h i st anns kw rule: resolve_resolve_kwargs.pinduct)
  case (1 h interface stack)
  then show ?case
    by (auto simp: resolve.psimps instantiate_def split: sum.splits pyval.splits prod.splits)
next
  case (2 h interface stack kwargs)
  then show ?case by (simp add: resolve_kwargs.psimps)
next
  case (3 h interface stack parametername parametertype rest kwargs)
  then show ?case
    by (auto simp: resolve_kwargs.psimps split: sum.splits prod.splits)
qed

lemma finite_bound_interfaces: "finite (bound_interfaces self)"
  by (simp add: bound_interfaces_def)

lemma stack_set_push: "stack_set (push_stack stack i) = stack_set stack \<union> {i}"
  by (simp add: stack_set_def push_stack_def split: option.splits)

lemma in_stack_iff: "in_stack i stack \<longleftrightarrow> i \<in> stack_set stack"
  by (simp add: stack_set_def in_stack_def split: option.splits)

termination resolve
proof (relation "measures [\<lambda>x. case x of Inl (h, i, st) \<Rightarrow> card (bound_interfaces (injector_obj h) - stack_set st)
                                       | Inr (h, i, st, anns, kw) \<Rightarrow> card (bound_interfaces (injector_obj h) - stack_set st - {i}),
                              \<lambda>x. case x of Inl _ \<Rightarrow> 0 | Inr _ \<Rightarrow> 1,
                              \<lambda>x. case x of Inl _ \<Rightarrow> 0 | Inr (h, i, st, anns, kw) \<Rightarrow> length anns]",
       goal_cases)
  case 1
  show ?case by simp
next
  case (2 h interface stack b impl)
  have "interface \<in> bound_interfaces (injector_obj h) - stack_set stack"
    using 2 implementation_Inr_bound by (simp add: in_stack_iff)
  moreover have "finite (bound_interfaces (injector_obj h) - stack_set stack)"
    by (simp add: finite_bound_interfaces)
  ultimately have "card (bound_interfaces (injector_obj h) - stack_set stack - {interface})
        < card (bound_interfaces (injector_obj h) - stack_set stack)"
    by (rule card_Diff1_less[rotated])
  then show ?case by simp
next
  case (3 h interface stack parametername parametertype rest kwargs)
  show ?case by simp
next
  case (4 h interface stack parametername parametertype rest kwargs dep)
  have "bound_interfaces (injector_obj h) - stack_set (push_stack stack interface)
        = bound_interfaces (injector_obj h) - stack_set stack - {interface}"
    by (auto simp: stack_set_push)
  then show ?case by simp
next
  case (5 h interface stack parametername parametertype rest kwargs dep x h' v)
  have "injector_obj h' = injector_obj h"
    using resolve_frame_dom(1)[OF 5(5)] 5(3) by (metis snd_conv)
  then show ?case by simp
qed

declare resolve.simps [simp del]

section \<open>Registration\<close>

lemma register_interface_cases:
  "register_interface self i =
     (if type_name i \<in> dom (interfaces self)
      then (Inl (ImplementedError (type_name i)), self)
      else (Inr (), self\<lparr>interfaces := (interfaces self)(type_name i \<mapsto> i)\<rparr>))"
  by (simp add: register_interface_def)

lemma register_failure_unchanged:
  "fst (register self r) = Inl e \<Longrightarrow> snd (register self r) = self"
  by (cases r)
     (auto simp: register_scoped_def register_singleton_def register_interface_def
           split: if_splits)

lemma register_keeps_consistent:
  assumes "registry_consistent self"
  shows "registry_consistent (snd (register self r))"
proof (cases r)
  case (RegisterScoped i impl)
  then show ?thesis
    using assms
    by (auto simp: register_scoped_def register_interface_def registry_consistent_def
                   scoped_names_def singleton_names_def)
next
  case (RegisterSingleton i v)
  then show ?thesis
    using assms
    by (auto simp: register_singleton_def register_interface_def registry_consistent_def
                   scoped_names_def singleton_names_def)
qed

lemma registrations_keep_consistent:
  "registry_consistent self \<Longrightarrow> registry_consistent (registrations self rs)"
  by (induction rs arbitrary: self) (simp_all add: register_keeps_consistent)

lemma new_injector_consistent: "registry_consistent new_injector"
  by (simp add: registry_consistent_def new_injector_def scoped_names_def singleton_names_def)

lemmas class_defs =
  builtin_object_def builtin_type_def Config_def SimpleOneService_def SimpleOneServiceImpl_def
  SimpleTwoService_def SimpleTwoServiceImpl_def ComplexService_def ComplexServiceImpl_def
  CyclicService_def CyclicServiceImpl_def a_config_def complex_injector_def
  cyclic_injector_def partial_injector_def LoopService_def LoopServiceImpl_def
  loop_injector_def ServiceA_def ServiceAImpl_def ServiceB_def ServiceBImpl_def
  ServiceC_def ServiceCImpl_def ServiceD_def ServiceDImpl_def diamond_injector_def
  ServiceDNeedyImpl_def needy_diamond_injector_def

lemmas method_defs =
  new_injector_def register_scoped_def register_singleton_def register_interface_def
  issubclass_def isinstance_def mro_def injector_implementation_def in_stack_def
  push_stack_def instantiate_def heap_of_def

text \<open>
  C9. In every state reached from a fresh injector by a sequence of \<open>register_scoped\<close> and
  \<open>register_singleton\<close> calls, failing or not, the names of the scoped table are pairwise
  distinct, the names of the singleton table are pairwise distinct, no name is in both, and
  the keys of the \<open>interfaces\<close> index are exactly these names. A registration that raises
  leaves the injector as it was.
\<close>

theorem registry_consistency_invariant:
  "registry_consistent (registrations new_injector rs) \<and>
   (\<forall>self r e. fst (register self r) = Inl e \<longrightarrow> snd (register self r) = self)"
  using registrations_keep_consistent [OF new_injector_consistent]
        register_failure_unchanged
  by blast

theorem registry_consistency_invariant_witness:
  "registry_consistent
     (registrations new_injector
        [RegisterScoped SimpleOneService SimpleOneServiceImpl,
         RegisterScoped SimpleOneService SimpleOneServiceImpl,
         RegisterSingleton Config a_config,
         RegisterSingleton SimpleOneService a_config]) \<and>
   scoped_names
     (registrations new_injector
        [RegisterScoped SimpleOneService SimpleOneServiceImpl,
         RegisterScoped SimpleOneService SimpleOneServiceImpl,
         RegisterSingleton Config a_config,
         RegisterSingleton SimpleOneService a_config]) = [''SimpleOneService''] \<and>
   singleton_names
     (registrations new_injector
        [RegisterScoped SimpleOneService SimpleOneServiceImpl,
         RegisterScoped SimpleOneService SimpleOneServiceImpl,
         RegisterSingleton Config a_config,
         RegisterSingleton SimpleOneService a_config]) = [''Config''] \<and>
   fst (register (snd (register new_injector (RegisterScoped Config Config)))
          (RegisterSingleton Config a_config)) = Inl (ImplementedError ''Config'') \<and>
   snd (register (snd (register new_injector (RegisterScoped Config Config)))
          (RegisterSingleton Config a_config))
     = snd (register new_injector (RegisterScoped Config Config))"
proof -
  let ?rs = "[RegisterScoped SimpleOneService SimpleOneServiceImpl,
              RegisterScoped SimpleOneService SimpleOneServiceImpl,
              RegisterSingleton Config a_config,
              RegisterSingleton SimpleOneService a_config]"
  let ?self = "snd (register new_injector (RegisterScoped Config Config))"
  have fails: "fst (register ?self (RegisterSingleton Config a_config))
                 = Inl (ImplementedError ''Config'')"
    by (simp add: method_defs class_defs)
  have names: "scoped_names (registrations new_injector ?rs) = [''SimpleOneService'']"
              "singleton_names (registrations new_injector ?rs) = [''Config'']"
    by (simp_all add: method_defs class_defs scoped_names_def singleton_names_def)
  from registry_consistency_invariant [of ?rs] fails names
  show ?thesis by blast
qed

lemma register_success_indexed:
  "fst (register self r) = Inr u \<Longrightarrow>
   type_name (registered_interface r) \<in> dom (interfaces (snd (register self r)))"
  by (cases r)
     (auto simp: register_scoped_def register_singleton_def register_interface_def
           split: if_splits)

lemma register_index_grows:
  "n \<in> dom (interfaces self) \<Longrightarrow> n \<in> dom (interfaces (snd (register self r)))"
  by (cases r)
     (auto simp: register_scoped_def register_singleton_def register_interface_def
           split: if_splits)

lemma registrations_index_grows:
  "n \<in> dom (interfaces self) \<Longrightarrow> n \<in> dom (interfaces (registrations self rs))"
  by (induction rs arbitrary: self) (simp_all add: register_index_grows)

lemma register_indexed_fails:
  "type_name (registered_interface r) \<in> dom (interfaces self) \<Longrightarrow> conforms r \<Longrightarrow>
   register self r = (Inl (ImplementedError (type_name (registered_interface r))), self)"
  by (cases r)
     (auto simp: register_scoped_def register_singleton_def register_interface_def)

lemma register_nonconforming_scoped:
  "\<not> issubclass impl i \<Longrightarrow>
   register self (RegisterScoped i impl) =
     (Inl (ImplementationInterfaceMismatchError (type_name impl) (type_name i)), self)"
  by (simp add: register_scoped_def)

text \<open>
  C4, as amended. Both registration methods test conformance first and the index second.
  Once a registration of an interface has succeeded, every later registration of that
  interface, scoped or singleton, that passes its conformance test raises
  \<open>ImplementedError\<close> naming the interface and leaves the injector unchanged, whatever was
  registered in between.
\<close>

theorem registration_exclusivity:
  assumes "fst (register self r1) = Inr ()"
      and "registered_interface r2 = registered_interface r1"
      and "conforms r2"
  shows "register (registrations (snd (register self r1)) rs) r2 =
           (Inl (ImplementedError (type_name (registered_interface r1))),
            registrations (snd (register self r1)) rs)"
proof -
  have "type_name (registered_interface r1) \<in> dom (interfaces (snd (register self r1)))"
    using assms(1) by (rule register_success_indexed)
  then have "type_name (registered_interface r2)
               \<in> dom (interfaces (registrations (snd (register self r1)) rs))"
    using assms(2) by (simp add: registrations_index_grows)
  from register_indexed_fails [OF this assms(3)] assms(2) show ?thesis by simp
qed

theorem registration_exclusivity_counterexample:
  "fst (register new_injector (RegisterScoped SimpleOneService SimpleOneServiceImpl)) = Inr () \<and>
   fst (register (snd (register new_injector (RegisterScoped SimpleOneService SimpleOneServiceImpl)))
          (RegisterScoped SimpleOneService SimpleTwoServiceImpl))
     = Inl (ImplementationInterfaceMismatchError ''SimpleTwoServiceImpl'' ''SimpleOneService'') \<and>
   fst (register (snd (register new_injector (RegisterScoped SimpleOneService SimpleOneServiceImpl)))
          (RegisterScoped SimpleOneService SimpleTwoServiceImpl))
     \<noteq> Inl (ImplementedError ''SimpleOneService'')"
  by (simp add: method_defs class_defs)

theorem registration_exclusivity_witness:
  "fst (register new_injector (RegisterScoped SimpleOneService SimpleOneServiceImpl)) = Inr () \<and>
   conforms (RegisterSingleton SimpleOneService (Inst 0 SimpleOneServiceImpl [])) \<and>
   fst (register
         (registrations
            (snd (register new_injector (RegisterScoped SimpleOneService SimpleOneServiceImpl)))
            [RegisterSingleton Config a_config])
         (RegisterSingleton SimpleOneService (Inst 0 SimpleOneServiceImpl [])))
     = Inl (ImplementedError ''SimpleOneService'')"
proof -
  have ok: "fst (register new_injector (RegisterScoped SimpleOneService SimpleOneServiceImpl)) = Inr ()"
    by (simp add: method_defs class_defs)
  have conf: "conforms (RegisterSingleton SimpleOneService (Inst 0 SimpleOneServiceImpl []))"
    by (simp add: method_defs class_defs)
  have same: "registered_interface (RegisterSingleton SimpleOneService (Inst 0 SimpleOneServiceImpl []))
              = registered_interface (RegisterScoped SimpleOneService SimpleOneServiceImpl)"
    by simp
  have name: "type_name SimpleOneService = ''SimpleOneService''"
    by (simp add: class_defs)
  from registration_exclusivity [OF ok same conf, of "[RegisterSingleton Config a_config]"] ok conf name
  show ?thesis by simp
qed

section \<open>Resolution reads the injector only\<close>

lemma resolve_preserves_injector:
  "injector_obj (snd (resolve h i st)) = injector_obj h"
  "injector_obj (snd (resolve_kwargs h i st anns kw)) = injector_obj h"
proof (induction h i st and h i st anns kw rule: resolve_resolve_kwargs.induct)
  case (1 h interface stack)
  then show ?case
    by (auto simp: resolve.simps instantiate_def split: sum.splits pyval.splits prod.splits)
next
  case (2 h interface stack kwargs)
  then show ?case by simp
next
  case (3 h interface stack parametername parametertype rest kwargs)
  then show ?case
    by (auto split: sum.splits prod.splits)
qed

lemma resolve_injector_eq:
  "resolve h i st = (r, h') \<Longrightarrow> injector_obj h' = injector_obj h"
  using resolve_preserves_injector(1) [of h i st] by simp

lemma resolve_kwargs_injector_eq:
  "resolve_kwargs h i st anns kw = (r, h') \<Longrightarrow> injector_obj h' = injector_obj h"
  using resolve_preserves_injector(2) [of h i st anns kw] by simp

lemma callable_kwargs_preserves_injector:
  "injector_obj (snd (callable_kwargs h anns kw)) = injector_obj h"
proof (induction anns arbitrary: h kw)
  case Nil
  then show ?case by simp
next
  case (Cons a anns)
  obtain p t where a: "a = (p, t)" by (cases a)
  show ?case
    using Cons.IH
    by (auto simp: a split: sum.splits prod.splits dest: resolve_injector_eq)
qed

lemma resolve_callable_preserves_injector:
  "injector_obj (snd (resolve_callable h fn)) = injector_obj h"
proof (cases fn)
  case NotCallable
  then show ?thesis by (simp add: resolve_callable_def)
next
  case (Callable anns body)
  then show ?thesis
    using callable_kwargs_preserves_injector [of h anns "[]"]
    by (auto simp: resolve_callable_def split: sum.splits prod.splits)
qed

text \<open>
  C8. A call of \<open>resolve\<close> or of \<open>resolve_callable\<close>, returning or raising, leaves the
  \<open>interfaces\<close> index, the scoped table and the singleton table as they were.
\<close>

theorem resolution_never_mutates_registry:
  "interfaces (injector_obj (snd (resolve h i st))) = interfaces (injector_obj h) \<and>
   scoped_services (injector_obj (snd (resolve h i st))) = scoped_services (injector_obj h) \<and>
   singleton_services (injector_obj (snd (resolve h i st))) = singleton_services (injector_obj h) \<and>
   interfaces (injector_obj (snd (resolve_callable h fn))) = interfaces (injector_obj h) \<and>
   scoped_services (injector_obj (snd (resolve_callable h fn))) = scoped_services (injector_obj h) \<and>
   singleton_services (injector_obj (snd (resolve_callable h fn)))
     = singleton_services (injector_obj h)"
  by (simp add: resolve_preserves_injector(1) resolve_callable_preserves_injector)

theorem resolution_never_mutates_registry_witness:
  "fst (resolve (heap_of cyclic_injector) CyclicService None)
     = Inl (CyclicDependencyError ''CyclicService'' [''CyclicService'']) \<and>
   interfaces (injector_obj (snd (resolve (heap_of cyclic_injector) CyclicService None)))
     = interfaces (injector_obj (heap_of cyclic_injector)) \<and>
   scoped_services (injector_obj (snd (resolve (heap_of cyclic_injector) CyclicService None)))
     = scoped_services (injector_obj (heap_of cyclic_injector)) \<and>
   singleton_services (injector_obj (snd (resolve (heap_of cyclic_injector) CyclicService None)))
     = singleton_services (injector_obj (heap_of cyclic_injector)) \<and>
   interfaces (injector_obj (snd (resolve_callable (heap_of cyclic_injector)
       (Callable [(''cyclic_service'', AType CyclicService)] (\<lambda>kwargs h. ((), h))))))
     = interfaces (injector_obj (heap_of cyclic_injector)) \<and>
   scoped_services (injector_obj (snd (resolve_callable (heap_of cyclic_injector)
       (Callable [(''cyclic_service'', AType CyclicService)] (\<lambda>kwargs h. ((), h))))))
     = scoped_services (injector_obj (heap_of cyclic_injector)) \<and>
   singleton_services (injector_obj (snd (resolve_callable (heap_of cyclic_injector)
       (Callable [(''cyclic_service'', AType CyclicService)] (\<lambda>kwargs h. ((), h))))))
     = singleton_services (injector_obj (heap_of cyclic_injector))"
proof (rule conjI)
  show "fst (resolve (heap_of cyclic_injector) CyclicService None)
          = Inl (CyclicDependencyError ''CyclicService'' [''CyclicService''])"
    by (simp add: resolve.simps method_defs class_defs)
qed (rule resolution_never_mutates_registry)

section \<open>Bindings and what resolve does with them\<close>





lemma first_match_None_iff: "first_match i xs = None \<longleftrightarrow> i \<notin> fst ` set xs"
  by (induction xs) (auto split: if_splits)



lemma resolve_instance:
  "injector_implementation (injector_obj h) i = Inr (Inst n c kw) \<Longrightarrow>
   resolve h i st = (Inr (Inst n c kw), h)"
  by (simp add: resolve.simps)

lemma resolve_type:
  "injector_implementation (injector_obj h) i = Inr (Cls t) \<Longrightarrow>
   resolve h i st =
     (if in_stack i st
      then (Inl (CyclicDependencyError (type_name i) (map type_name (the st))), h)
      else (case resolve_kwargs h i st (init_annotations t) [] of
              (Inl e, h') \<Rightarrow> (Inl e, h')
            | (Inr kwargs, h') \<Rightarrow> instantiate h' t kwargs))"
  by (simp add: resolve.simps)




text \<open>
  C5 at a class-valued singleton. The class \<open>Config\<close> itself is registered as the singleton
  of the interface \<open>type\<close>; \<open>resolve\<close> does not return the class but calls it, and
  returns the new instance.
\<close>

theorem singleton_identity_class_valued:
  "fst (register_singleton new_injector builtin_type (Cls Config)) = Inr () \<and>
   fst (resolve (heap_of (snd (register_singleton new_injector builtin_type (Cls Config))))
          builtin_type None) = Inr (Inst 1 Config []) \<and>
   fst (resolve (heap_of (snd (register_singleton new_injector builtin_type (Cls Config))))
          builtin_type None) \<noteq> Inr (Cls Config) \<and>
   constructed
     (snd (resolve (heap_of (snd (register_singleton new_injector builtin_type (Cls Config))))
             builtin_type None)) = [Config]"
  by (simp add: resolve.simps method_defs class_defs)

lemma first_match_distinct:
  "distinct (map fst xs) \<Longrightarrow> (k, v) \<in> set xs \<Longrightarrow> first_match k xs = Some v"
  by (induction xs) (auto simp: rev_image_eqI)

lemma distinct_names_keys:
  "distinct (map (\<lambda>kv. type_name (fst kv)) xs) \<Longrightarrow> distinct (map fst xs)"
  by (induction xs) (auto simp: rev_image_eqI)

lemma implementation_scoped:
  assumes "registry_consistent self" and "(i, t) \<in> set (scoped_services self)"
  shows "injector_implementation self i = Inr (Cls t)"
proof -
  have "distinct (map fst (scoped_services self))"
    using assms(1) by (simp add: registry_consistent_def scoped_names_def distinct_names_keys)
  then show ?thesis
    using assms(2) by (simp add: injector_implementation_def first_match_distinct)
qed

lemma implementation_singleton:
  assumes "registry_consistent self" and "(i, v) \<in> set (singleton_services self)"
  shows "injector_implementation self i = Inr v"
proof -
  have d: "distinct (map fst (singleton_services self))"
    using assms(1) by (simp add: registry_consistent_def singleton_names_def distinct_names_keys)
  have "type_name i \<in> set (singleton_names self)"
    using assms(2) by (force simp: singleton_names_def)
  then have "type_name i \<notin> set (scoped_names self)"
    using assms(1) by (auto simp: registry_consistent_def)
  then have "i \<notin> fst ` set (scoped_services self)"
    by (force simp: scoped_names_def)
  then have "first_match i (scoped_services self) = None"
    by (simp add: first_match_None_iff)
  then show ?thesis
    using assms(2) d by (simp add: injector_implementation_def first_match_distinct)
qed

text \<open>
  A singleton that is an instance (not a class object) is returned as it is, on the heap as
  it is: no cycle check, no recursion, no constructor call.
\<close>

lemma instance_singleton_returned_as_is:
  assumes "injector_obj h = registrations new_injector rs"
      and "(i, Inst n c kw) \<in> set (singleton_services (injector_obj h))"
  shows "resolve h i st = (Inr (Inst n c kw), h)"
proof -
  have "registry_consistent (injector_obj h)"
    by (simp add: assms(1) registrations_keep_consistent new_injector_consistent)
  from implementation_singleton [OF this assms(2)] show ?thesis
    by (rule resolve_instance)
qed

section \<open>Resolution does not depend on the heap\<close>

text \<open>
  On two heaps that hold the same injector, \<open>resolve\<close> raises the same exception or
  returns values equal up to object identities, and instantiates the same classes.
\<close>

lemma same_growth_refl: "same_growth h h g g"
  by (simp add: same_growth_def)

lemma same_growth_trans:
  "same_growth h h1 g g1 \<Longrightarrow> same_growth h1 h2 g1 g2 \<Longrightarrow> same_growth h h2 g g2"
  unfolding same_growth_def
  by (elim exE conjE) (rule_tac x = "cs @ csa" in exI, simp)

lemma same_growth_instantiate:
  "same_growth h h' g g' \<Longrightarrow>
   same_growth h (snd (instantiate h' t kw)) g (snd (instantiate g' t kw'))"
  unfolding same_growth_def instantiate_def
  by (elim exE conjE) (rule_tac x = "cs @ [t]" in exI, simp)

lemma shapes_update:
  "shapes kw = shapes kw' \<Longrightarrow> shape v = shape w \<Longrightarrow>
   shapes (AList.update p v kw) = shapes (AList.update p w kw')"
proof (induction kw arbitrary: kw')
  case Nil
  then show ?case by (simp add: shapes_def)
next
  case (Cons a kw)
  then obtain b kw'' where kw': "kw' = b # kw''" by (cases kw') (auto simp: shapes_def)
  with Cons.prems have "fst a = fst b" "shapes kw = shapes kw''"
    by (auto simp: shapes_def map_prod_def split: prod.splits)
  with Cons.IH [OF this(2) Cons.prems(2)] Cons.prems kw' show ?case
    by (cases a; cases b) (auto simp: shapes_def)
qed

lemma resolve_simulation:
  "injector_obj g = injector_obj h \<Longrightarrow>
     map_sum (\<lambda>e. e) shape (fst (resolve h i st)) = map_sum (\<lambda>e. e) shape (fst (resolve g i st)) \<and>
     same_growth h (snd (resolve h i st)) g (snd (resolve g i st))"
  "injector_obj g = injector_obj h \<Longrightarrow> shapes kw = shapes kw' \<Longrightarrow>
     map_sum (\<lambda>e. e) shapes (fst (resolve_kwargs h i st anns kw))
       = map_sum (\<lambda>e. e) shapes (fst (resolve_kwargs g i st anns kw')) \<and>
     same_growth h (snd (resolve_kwargs h i st anns kw)) g (snd (resolve_kwargs g i st anns kw'))"
proof (induction h i st and h i st anns kw arbitrary: g and g kw' rule: resolve_resolve_kwargs.induct)
  case (1 h interface stack)
  show ?case
  proof (cases "injector_implementation (injector_obj h) interface")
    case (Inl e)
    then show ?thesis using 1(2) by (simp add: resolve.simps same_growth_refl)
  next
    case (Inr b)
    show ?thesis
    proof (cases b)
      case (Inst n c kw)
      then show ?thesis using Inr 1(2) by (simp add: resolve.simps same_growth_refl)
    next
      case (Cls impl)
      show ?thesis
      proof (cases "in_stack interface stack")
        case True
        then show ?thesis using Inr Cls 1(2) by (simp add: resolve.simps same_growth_refl)
      next
        case False
        have sh: "shapes [] = shapes []" by simp
        note IH = 1(1) [OF Inr Cls False 1(2) sh]
        obtain r h' where rh: "resolve_kwargs h interface stack (init_annotations impl) [] = (r, h')"
          by (cases "resolve_kwargs h interface stack (init_annotations impl) []")
        obtain s g' where sg: "resolve_kwargs g interface stack (init_annotations impl) [] = (s, g')"
          by (cases "resolve_kwargs g interface stack (init_annotations impl) []")
        from IH rh sg have rs: "map_sum (\<lambda>e. e) shapes r = map_sum (\<lambda>e. e) shapes s"
          and gr: "same_growth h h' g g'" by simp_all
        show ?thesis
        proof (cases r)
          case (Inl e)
          then obtain e' where "s = Inl e'" using rs by (cases s) auto
          with Inl rs gr rh sg Inr Cls False 1(2) show ?thesis
            by (simp add: resolve.simps)
        next
          case r: (Inr kw)
          then obtain kw' where s: "s = Inr kw'" using rs by (cases s) auto
          with r rs have "shapes kw = shapes kw'" by simp
          with r s gr rh sg Inr Cls False 1(2) same_growth_instantiate [OF gr, of impl kw kw']
          show ?thesis
            by (simp add: resolve.simps) (simp add: instantiate_def shapes_def)
        qed
      qed
    qed
  qed
next
  case (2 h interface stack kwargs)
  then show ?case by (simp add: same_growth_refl)
next
  case (3 h interface stack parametername parametertype rest kwargs)
  show ?case
  proof (cases "parametername = ''return''")
    case True
    with 3(1) [OF True 3(4) 3(5)] show ?thesis by simp
  next
    case False
    show ?thesis
    proof (cases "injector_interface (injector_obj h) parametertype")
      case (Inl e)
      then show ?thesis using False 3(4) by (simp add: same_growth_refl)
    next
      case (Inr dep)
      note IH1 = 3(2) [OF False Inr 3(4)]
      obtain r h' where rh: "resolve h dep (push_stack stack interface) = (r, h')"
        by (cases "resolve h dep (push_stack stack interface)")
      obtain s g' where sg: "resolve g dep (push_stack stack interface) = (s, g')"
        by (cases "resolve g dep (push_stack stack interface)")
      from IH1 rh sg have rs: "map_sum (\<lambda>e. e) shape r = map_sum (\<lambda>e. e) shape s"
        and gr: "same_growth h h' g g'" by simp_all
      show ?thesis
      proof (cases r)
        case (Inl e)
        then obtain e' where "s = Inl e'" using rs by (cases s) auto
        with Inl rs gr rh sg Inr False 3(4) show ?thesis by simp
      next
        case r: (Inr v)
        then obtain w where s: "s = Inr w" using rs by (cases s) auto
        with r rs have vw: "shape v = shape w" by simp
        have inj: "injector_obj g' = injector_obj h'"
          using resolve_injector_eq [OF rh] resolve_injector_eq [OF sg] 3(4) by simp
        have rh': "(r, h') = resolve h dep (push_stack stack interface)" using rh by simp
        note IH2 = 3(3) [OF False Inr rh' r inj shapes_update [OF 3(5) vw]]
        from IH2 same_growth_trans [OF gr] r s rh sg Inr False 3(4)
        show ?thesis by simp
      qed
    qed
  qed
qed

lemma reachable_consistent: "registry_consistent (registrations new_injector rs)"
  by (rule registrations_keep_consistent [OF new_injector_consistent])

text \<open>
  C6. For an interface with a scoped binding in a registry reached from a fresh injector, a
  call of \<open>resolve\<close> that returns has built a new instance of the implementation, and
  every later call (on any later heap of the same injector) returns too, with another new
  instance of a greater identity: the two are distinct, their arguments are equal by value,
  and the second call has run the same constructors again, in the same order. Nothing is
  cached.
\<close>

theorem scoped_freshness:
  assumes reach: "injector_obj h = registrations new_injector rs"
      and bound: "(i, t) \<in> set (scoped_services (injector_obj h))"
      and first: "resolve h i None = (Inr v1, h1)"
      and same: "injector_obj g = injector_obj h"
      and later: "next_id h1 \<le> next_id g"
  shows "\<exists>n1 kw1 n2 kw2 g' cs.
           v1 = Inst n1 t kw1 \<and> resolve g i None = (Inr (Inst n2 t kw2), g') \<and>
           n1 < n2 \<and> Inst n1 t kw1 \<noteq> Inst n2 t kw2 \<and> shapes kw1 = shapes kw2 \<and>
           constructed h1 = constructed h @ cs @ [t] \<and>
           constructed g' = constructed g @ cs @ [t]"
proof -
  have impl: "injector_implementation (injector_obj h) i = Inr (Cls t)"
    using implementation_scoped [OF _ bound] reachable_consistent reach by simp
  have notin: "\<not> in_stack i None" by (simp add: in_stack_def)
  obtain r h' where rh: "resolve_kwargs h i None (init_annotations t) [] = (r, h')"
    by (cases "resolve_kwargs h i None (init_annotations t) []")
  obtain s g'' where sg: "resolve_kwargs g i None (init_annotations t) [] = (s, g'')"
    by (cases "resolve_kwargs g i None (init_annotations t) []")
  from first rh obtain kw1 where r: "r = Inr kw1"
    and v1: "v1 = Inst (next_id h') t kw1"
    and h1: "h1 = h'\<lparr>next_id := Suc (next_id h'), constructed := constructed h' @ [t]\<rparr>"
    by (cases r) (auto simp: resolve_type [OF impl] notin instantiate_def)
  have sh: "shapes [] = shapes []" by simp
  from resolve_simulation(2) [OF same sh, of i None "init_annotations t"] rh sg
  have rs: "map_sum (\<lambda>e. e) shapes r = map_sum (\<lambda>e. e) shapes s"
    and gr: "same_growth h h' g g''" by simp_all
  from rs r obtain kw2 where s: "s = Inr kw2" and kws: "shapes kw1 = shapes kw2"
    by (cases s) auto
  from gr obtain cs where cs: "constructed h' = constructed h @ cs"
      "constructed g'' = constructed g @ cs"
      "next_id h' = next_id h + length cs" "next_id g'' = next_id g + length cs"
    by (auto simp: same_growth_def)
  have res2: "resolve g i None =
          (Inr (Inst (next_id g'') t kw2),
           g''\<lparr>next_id := Suc (next_id g''), constructed := constructed g'' @ [t]\<rparr>)"
    using impl same sg s by (simp add: resolve_type notin instantiate_def)
  have lt: "next_id h' < next_id g''"
    using later h1 cs by simp
  show ?thesis
    using v1 res2 lt kws cs h1 by (intro exI [of _ "next_id h'"] exI [of _ kw1]
        exI [of _ "next_id g''"] exI [of _ kw2]
        exI [of _ "g''\<lparr>next_id := Suc (next_id g''), constructed := constructed g'' @ [t]\<rparr>"]
        exI [of _ cs]) simp
qed

theorem scoped_freshness_witness:
  "(ComplexService, ComplexServiceImpl) \<in> set (scoped_services complex_injector) \<and>
   fst (resolve (heap_of complex_injector) ComplexService None)
     = Inr (Inst 3 ComplexServiceImpl
              [(''simpleone_service'', Inst 1 SimpleOneServiceImpl []),
               (''simpletwo_service'', Inst 2 SimpleTwoServiceImpl [])]) \<and>
   (\<exists>n1 kw1 n2 kw2 g' cs.
      Inst 3 ComplexServiceImpl
        [(''simpleone_service'', Inst 1 SimpleOneServiceImpl []),
         (''simpletwo_service'', Inst 2 SimpleTwoServiceImpl [])] = Inst n1 ComplexServiceImpl kw1 \<and>
      resolve (snd (resolve (heap_of complex_injector) ComplexService None)) ComplexService None
        = (Inr (Inst n2 ComplexServiceImpl kw2), g') \<and>
      n1 < n2 \<and> Inst n1 ComplexServiceImpl kw1 \<noteq> Inst n2 ComplexServiceImpl kw2 \<and>
      shapes kw1 = shapes kw2 \<and>
      constructed (snd (resolve (heap_of complex_injector) ComplexService None))
        = constructed (heap_of complex_injector) @ cs @ [ComplexServiceImpl] \<and>
      constructed g'
        = constructed (snd (resolve (heap_of complex_injector) ComplexService None))
            @ cs @ [ComplexServiceImpl])"
proof -
  let ?h = "heap_of complex_injector"
  let ?v1 = "Inst 3 ComplexServiceImpl
              [(''simpleone_service'', Inst 1 SimpleOneServiceImpl []),
               (''simpletwo_service'', Inst 2 SimpleTwoServiceImpl [])]"
  let ?h1 = "snd (resolve ?h ComplexService None)"
  have reach: "injector_obj ?h = registrations new_injector
       [RegisterScoped ComplexService ComplexServiceImpl,
        RegisterScoped SimpleOneService SimpleOneServiceImpl,
        RegisterScoped SimpleTwoService SimpleTwoServiceImpl]"
    by (simp add: heap_of_def complex_injector_def)
  have bound: "(ComplexService, ComplexServiceImpl) \<in> set (scoped_services complex_injector)"
    by (simp add: method_defs class_defs)
  then have bound': "(ComplexService, ComplexServiceImpl) \<in> set (scoped_services (injector_obj ?h))"
    by (simp add: heap_of_def)
  have val: "fst (resolve ?h ComplexService None) = Inr ?v1"
    by (simp add: resolve.simps method_defs class_defs)
  then have first: "resolve ?h ComplexService None = (Inr ?v1, ?h1)"
    by (simp add: prod_eq_iff)
  have same: "injector_obj ?h1 = injector_obj ?h"
    by (rule resolve_preserves_injector(1))
  from scoped_freshness [OF reach bound' first same order_refl] bound val
  show ?thesis by blast
qed

section \<open>resolve_callable\<close>

lemma update_keys: "fst ` set (AList.update k v al) = insert k (fst ` set al)"
  by (induction al) auto

lemma update_entries: "set (AList.update k v al) \<subseteq> insert (k, v) (set al)"
  by (induction al) auto

lemma callable_kwargs_injector_eq:
  "callable_kwargs h anns kw = (r, h') \<Longrightarrow> injector_obj h' = injector_obj h"
  using callable_kwargs_preserves_injector [of h anns kw] by simp

lemma callable_kwargs_keys:
  "callable_kwargs h anns kw = (Inr kw', h') \<Longrightarrow>
   fst ` set kw' = fst ` set kw \<union> {p \<in> fst ` set anns. p \<noteq> ''return''}"
proof (induction anns arbitrary: h kw)
  case Nil
  then show ?case by simp
next
  case (Cons a anns)
  obtain p t where a: "a = (p, t)" by (cases a)
  show ?case
  proof (cases "p = ''return''")
    case True
    with Cons a show ?thesis by auto
  next
    case False
    from Cons.prems a False obtain dep v h1 where
      "injector_interface (injector_obj h) t = Inr dep"
      "resolve h dep None = (Inr v, h1)"
      "callable_kwargs h1 anns (AList.update p v kw) = (Inr kw', h')"
      by (auto split: sum.splits prod.splits)
    from Cons.IH [OF this(3)] a False show ?thesis
      by (auto simp: update_keys)
  qed
qed

lemma callable_kwargs_values:
  "callable_kwargs h anns kw = (Inr kw', h') \<Longrightarrow> (p, v) \<in> set kw' \<Longrightarrow>
   (p, v) \<in> set kw \<or>
   (\<exists>a dep g g'. (p, a) \<in> set anns \<and> p \<noteq> ''return'' \<and>
        injector_interface (injector_obj h) a = Inr dep \<and>
        injector_obj g = injector_obj h \<and> resolve g dep None = (Inr v, g'))"
proof (induction anns arbitrary: h kw)
  case Nil
  then show ?case by simp
next
  case (Cons a anns)
  obtain q t where a: "a = (q, t)" by (cases a)
  show ?case
  proof (cases "q = ''return''")
    case True
    with Cons.prems a have "callable_kwargs h anns kw = (Inr kw', h')" by simp
    from Cons.IH [OF this Cons.prems(2)] show ?thesis by auto
  next
    case False
    from Cons.prems a False obtain dep w h1 where
      dep: "injector_interface (injector_obj h) t = Inr dep"
      and res: "resolve h dep None = (Inr w, h1)"
      and rest: "callable_kwargs h1 anns (AList.update q w kw) = (Inr kw', h')"
      by (auto split: sum.splits prod.splits)
    have inj: "injector_obj h1 = injector_obj h" using res by (rule resolve_injector_eq)
    from Cons.IH [OF rest Cons.prems(2)]
    consider "(p, v) \<in> set (AList.update q w kw)"
      | a' dep' g g' where "(p, a') \<in> set anns" "p \<noteq> ''return''"
          "injector_interface (injector_obj h1) a' = Inr dep'"
          "injector_obj g = injector_obj h1" "resolve g dep' None = (Inr v, g')"
      by blast
    then show ?thesis
    proof cases
      case 1
      with update_entries [of q w kw] have "(p, v) = (q, w) \<or> (p, v) \<in> set kw" by auto
      then show ?thesis
      proof
        assume "(p, v) = (q, w)"
        with dep res False a show ?thesis by (intro disjI2 exI [of _ t] exI [of _ dep] exI [of _ h] exI [of _ h1]) simp
      qed simp
    next
      case 2
      with inj a show ?thesis
        by (intro disjI2 exI [of _ a'] exI [of _ dep'] exI [of _ g] exI [of _ g']) simp
    qed
  qed
qed

lemma call_repeatedly_iterate:
  "call_repeatedly (Lambda body kwargs) n g = ((\<lambda>x. snd (body kwargs x)) ^^ n) g"
proof (induction n arbitrary: g)
  case 0
  show ?case by simp
next
  case (Suc n)
  show ?case
    using Suc.IH [of "snd (body kwargs g)"] funpow_swap1 [of "\<lambda>x. snd (body kwargs x)" n g]
    by simp
qed

lemma call_repeatedly_constructed:
  "(\<And>kw x. constructed (snd (body kw x)) = constructed x) \<Longrightarrow>
   constructed (call_repeatedly (Lambda body kwargs) n g) = constructed g"
  by (induction n arbitrary: g) simp_all

text \<open>
  C7. \<open>resolve_callable\<close> raises \<open>ValueError\<close> for an argument that is not callable. For
  a callable, when it returns, the result is the closure of the callable over a dictionary
  built during that call: its keys are the annotated parameter names other than
  \<open>return\<close>, each value was returned by \<open>resolve\<close> for the interface of that parameter,
  and every call of the closure, on whatever heap, applies the callable to this same
  dictionary. A call of the closure is one run of the callable's body and nothing more, so
  unless the body itself constructs objects, no constructor runs however often the closure
  is called.
\<close>

theorem resolve_callable_reuse:
  assumes "resolve_callable h (Callable anns body) = (Inr c, h')"
  shows "resolve_callable h (NotCallable :: 'r pyarg) = (Inl ValueError, h) \<and>
         (\<exists>kwargs. callable_kwargs h anns [] = (Inr kwargs, h') \<and>
            (c :: 'r closure) = Lambda body kwargs \<and>
            fst ` set kwargs = {p \<in> fst ` set anns. p \<noteq> ''return''} \<and>
            (\<forall>p v. (p, v) \<in> set kwargs \<longrightarrow>
               (\<exists>a dep g g'. (p, a) \<in> set anns \<and>
                  injector_interface (injector_obj h) a = Inr dep \<and>
                  injector_obj g = injector_obj h \<and> resolve g dep None = (Inr v, g'))) \<and>
            (\<forall>g. call_closure c g = body kwargs g) \<and>
            (\<forall>n g. call_repeatedly c n g = ((\<lambda>x. snd (body kwargs x)) ^^ n) g) \<and>
            ((\<forall>kw x. constructed (snd (body kw x)) = constructed x) \<longrightarrow>
               (\<forall>n g. constructed (call_repeatedly c n g) = constructed g)))"
proof -
  from assms obtain kwargs where kw: "callable_kwargs h anns [] = (Inr kwargs, h')"
    and c: "c = Lambda body kwargs"
    by (auto simp: resolve_callable_def split: sum.splits prod.splits)
  have keys: "fst ` set kwargs = {p \<in> fst ` set anns. p \<noteq> ''return''}"
    using callable_kwargs_keys [OF kw] by simp
  have vals: "\<forall>p v. (p, v) \<in> set kwargs \<longrightarrow>
               (\<exists>a dep g g'. (p, a) \<in> set anns \<and>
                  injector_interface (injector_obj h) a = Inr dep \<and>
                  injector_obj g = injector_obj h \<and> resolve g dep None = (Inr v, g'))"
    using callable_kwargs_values [OF kw] by fastforce
  have calls: "\<forall>g. call_closure c g = body kwargs g" by (simp add: c)
  have iter: "\<forall>n g. call_repeatedly c n g = ((\<lambda>x. snd (body kwargs x)) ^^ n) g"
    by (simp add: c call_repeatedly_iterate)
  have count: "(\<forall>kw x. constructed (snd (body kw x)) = constructed x) \<longrightarrow>
               (\<forall>n g. constructed (call_repeatedly c n g) = constructed g)"
    by (simp add: c call_repeatedly_constructed)
  have nc: "resolve_callable h (NotCallable :: 'r pyarg) = (Inl ValueError, h)"
    by (simp add: resolve_callable_def)
  from nc kw c keys vals calls iter count show ?thesis by blast
qed

theorem resolve_callable_reuse_witness:
  "fst (resolve_callable (heap_of complex_injector)
          (Callable [(''complex_service'', AType ComplexService), (''return'', AOther)]
                    (\<lambda>kwargs g. (kwargs, g))))
     = Inr (Lambda (\<lambda>kwargs g. (kwargs, g))
              [(''complex_service'',
                Inst 3 ComplexServiceImpl
                  [(''simpleone_service'', Inst 1 SimpleOneServiceImpl []),
                   (''simpletwo_service'', Inst 2 SimpleTwoServiceImpl [])])]) \<and>
   (\<forall>n g. constructed
            (call_repeatedly
               (Lambda (\<lambda>kwargs g. (kwargs, g))
                  [(''complex_service'',
                    Inst 3 ComplexServiceImpl
                      [(''simpleone_service'', Inst 1 SimpleOneServiceImpl []),
                       (''simpletwo_service'', Inst 2 SimpleTwoServiceImpl [])])]) n g)
          = constructed g)"
proof -
  let ?h = "heap_of complex_injector"
  let ?anns = "[(''complex_service'', AType ComplexService), (''return'', AOther)]"
  let ?body = "\<lambda>(kwargs :: (string \<times> pyval) list) (g :: heap). (kwargs, g)"
  let ?kw = "[(''complex_service'',
                Inst 3 ComplexServiceImpl
                  [(''simpleone_service'', Inst 1 SimpleOneServiceImpl []),
                   (''simpletwo_service'', Inst 2 SimpleTwoServiceImpl [])])]"
  have val: "fst (resolve_callable ?h (Callable ?anns ?body)) = Inr (Lambda ?body ?kw)"
    by (simp add: resolve_callable_def resolve.simps method_defs class_defs)
  then have run: "resolve_callable ?h (Callable ?anns ?body)
                    = (Inr (Lambda ?body ?kw), snd (resolve_callable ?h (Callable ?anns ?body)))"
    by (simp add: prod_eq_iff)
  have pure: "\<forall>kw x. constructed (snd (?body kw x)) = constructed x" by simp
  from resolve_callable_reuse [OF run] pure
  have "\<forall>n g. constructed (call_repeatedly (Lambda ?body ?kw) n g) = constructed g"
    by blast
  with val show ?thesis by blast
qed

section \<open>The dependency graph and the outcome of resolve\<close>


lemma in_stack_list: "in_stack i st \<longleftrightarrow> i \<in> set (stack_list st)"
  by (simp add: in_stack_def stack_list_def split: option.splits)











section \<open>Unresolved interfaces\<close>




























section \<open>Cycles\<close>











section \<open>Diamonds\<close>

lemma resolve_kwargs_constructor_parameters:
  "resolve_kwargs h i st anns kw
     = resolve_kwargs h i st (filter (\<lambda>pa. fst pa \<noteq> ''return'') anns) kw"
proof (induction anns arbitrary: h kw)
  case Nil
  show ?case by simp
next
  case (Cons a anns)
  obtain p t where a: "a = (p, t)" by (cases a)
  show ?case
  proof (cases "p = ''return''")
    case True
    with a Cons.IH show ?thesis by simp
  next
    case False
    with a Cons.IH show ?thesis
      by (simp split: sum.splits prod.splits)
  qed
qed

lemma resolve_scoped:
  assumes "registry_consistent (injector_obj h)"
      and "(i, t) \<in> set (scoped_services (injector_obj h))"
      and "i \<notin> set (stack_list st)"
  shows "resolve h i st =
           (case resolve_kwargs h i st (constructor_parameters t) [] of
              (Inl e, h') \<Rightarrow> (Inl e, h')
            | (Inr kwargs, h') \<Rightarrow>
                (Inr (Inst (next_id h') t kwargs),
                 h'\<lparr>next_id := Suc (next_id h'), constructed := constructed h' @ [t]\<rparr>))"
proof -
  have "injector_implementation (injector_obj h) i = Inr (Cls t)"
    using assms(1,2) by (rule implementation_scoped)
  from resolve_type [OF this, of st] assms(3)
       resolve_kwargs_constructor_parameters [of h i st "init_annotations t" "[]"]
  show ?thesis
    by (simp add: in_stack_list constructor_parameters_def instantiate_def
             split: prod.splits sum.splits)
qed

lemma constructor_parameter_name:
  "(p, a) \<in> set (constructor_parameters t) \<Longrightarrow> p \<noteq> ''return''"
  by (auto simp: constructor_parameters_def)

lemma scoped_functional:
  assumes "registry_consistent self"
      and "(i, t) \<in> set (scoped_services self)" and "(i, t') \<in> set (scoped_services self)"
  shows "t = t'"
  using implementation_scoped [OF assms(1,2)] implementation_scoped [OF assms(1,3)] by simp

lemma resolve_growth:
  "\<exists>cs. constructed (snd (resolve h i st)) = constructed h @ cs \<and>
        next_id (snd (resolve h i st)) = next_id h + length cs"
  using resolve_simulation(1) [of h h i st] by (auto simp: same_growth_def)

lemma resolve_kwargs_growth:
  "\<exists>cs. constructed (snd (resolve_kwargs h i st anns kw)) = constructed h @ cs \<and>
        next_id (snd (resolve_kwargs h i st anns kw)) = next_id h + length cs"
  using resolve_simulation(2) [of h h kw kw i st anns] by (auto simp: same_growth_def)

lemma resolve_scoped_success:
  assumes cons: "registry_consistent (injector_obj h)"
      and bound: "(i, t) \<in> set (scoped_services (injector_obj h))"
      and run: "resolve h i st = (Inr v, h')"
  shows "i \<notin> set (stack_list st) \<and>
         (\<exists>kw h0 cs. resolve_kwargs h i st (constructor_parameters t) [] = (Inr kw, h0) \<and>
            v = Inst (next_id h0) t kw \<and>
            h' = h0\<lparr>next_id := Suc (next_id h0), constructed := constructed h0 @ [t]\<rparr> \<and>
            constructed h0 = constructed h @ cs \<and> next_id h0 = next_id h + length cs)"
proof -
  have impl: "injector_implementation (injector_obj h) i = Inr (Cls t)"
    using cons bound by (rule implementation_scoped)
  have notin: "i \<notin> set (stack_list st)"
  proof
    assume "i \<in> set (stack_list st)"
    then have "in_stack i st" by (simp add: in_stack_list)
    with resolve_type [OF impl, of st] run show False by simp
  qed
  obtain r h0 where k: "resolve_kwargs h i st (constructor_parameters t) [] = (r, h0)"
    by (cases "resolve_kwargs h i st (constructor_parameters t) []")
  from resolve_scoped [OF cons bound notin] run k obtain kw where r: "r = Inr kw"
    and v: "v = Inst (next_id h0) t kw"
    and h': "h' = h0\<lparr>next_id := Suc (next_id h0), constructed := constructed h0 @ [t]\<rparr>"
    by (cases r) auto
  from resolve_kwargs_growth [of h i st "constructor_parameters t" "[]"] k
  obtain cs where "constructed h0 = constructed h @ cs" "next_id h0 = next_id h + length cs"
    by auto
  with notin k r v h' show ?thesis by blast
qed

lemma resolve_success_on_other_heap:
  assumes "injector_obj g = injector_obj h" and "fst (resolve h i st) = Inr v"
  shows "\<exists>w. fst (resolve g i st) = Inr w \<and> shape w = shape v"
proof -
  from resolve_simulation(1) [OF assms(1), of i st] assms(2)
  have "map_sum (\<lambda>e. e) shape (fst (resolve g i st)) = Inr (shape v)" by simp
  then show ?thesis by (cases "fst (resolve g i st)") auto
qed

lemma resolve_over_one:
  assumes cons: "registry_consistent (injector_obj g)"
      and b: "(b, bi) \<in> set (scoped_services (injector_obj g))"
      and pb: "constructor_parameters bi = [(pd, ad)]"
      and look: "injector_interface (injector_obj g) ad = Inr d"
      and nb: "b \<notin> set (stack_list st)"
      and under: "resolve g d (push_stack st b) = (Inr vd, g1)"
  shows "resolve g b st =
           (Inr (Inst (next_id g1) bi [(pd, vd)]),
            g1\<lparr>next_id := Suc (next_id g1), constructed := constructed g1 @ [bi]\<rparr>)"
proof -
  have pdr: "pd \<noteq> ''return''"
    using constructor_parameter_name [of pd ad bi] pb by simp
  have "resolve_kwargs g b st [(pd, ad)] [] = (Inr [(pd, vd)], g1)"
    by (simp add: pdr look under)
  with resolve_scoped [OF cons b nb] pb show ?thesis by simp
qed

text \<open>
  C3, as amended. In a registry reached from a fresh injector, let \<open>A\<close>, \<open>B\<close>, \<open>C\<close> and
  \<open>D\<close> have scoped bindings, the constructor of the implementation of \<open>A\<close> take \<open>B\<close>
  and \<open>C\<close>, and those of \<open>B\<close> and of \<open>C\<close> take \<open>D\<close>; and let \<open>D\<close> itself resolve
  below \<open>A\<close> and \<open>B\<close> and below \<open>A\<close> and \<open>C\<close>. Then \<open>resolve\<close> of \<open>A\<close> returns,
  raising no \<open>CyclicDependencyError\<close>: the result is a new instance for \<open>A\<close> holding
  new instances for \<open>B\<close> and \<open>C\<close>, each of which holds an instance of the implementation
  of \<open>D\<close> of its own. The two are equal by value to what \<open>D\<close> resolves to and have
  different identities, and the constructor of \<open>D\<close> has run twice. When \<open>D\<close> is resolved
  under \<open>C\<close> the stack is \<open>[A, C]\<close>; that \<open>D\<close> was resolved under \<open>B\<close> before is
  recorded nowhere.
\<close>

theorem diamond_tolerance:
  assumes reach: "injector_obj h = registrations new_injector rs"
      and a: "(A, AI) \<in> set (scoped_services (injector_obj h))"
      and b: "(B, BI) \<in> set (scoped_services (injector_obj h))"
      and c: "(C, CI) \<in> set (scoped_services (injector_obj h))"
      and d: "(D, DI) \<in> set (scoped_services (injector_obj h))"
      and pa: "constructor_parameters AI = [(pb, ab), (pc, ac)]" and names: "pb \<noteq> pc"
      and pb: "constructor_parameters BI = [(pd, ad)]"
      and pc: "constructor_parameters CI = [(pd', ad')]"
      and ab: "injector_interface (injector_obj h) ab = Inr B"
      and ac: "injector_interface (injector_obj h) ac = Inr C"
      and ad: "injector_interface (injector_obj h) ad = Inr D"
      and ad': "injector_interface (injector_obj h) ad' = Inr D"
      and dB: "fst (resolve h D (Some [A, B])) = Inr vB"
      and dC: "fst (resolve h D (Some [A, C])) = Inr vC"
  shows "\<exists>n1 kw1 n2 kw2 nB nC nA h' cs1 cs2.
           vB = Inst n1 DI kw1 \<and> shape (Inst n2 DI kw2) = shape vC \<and> n1 < n2 \<and>
           resolve h A None =
             (Inr (Inst nA AI [(pb, Inst nB BI [(pd, Inst n1 DI kw1)]),
                               (pc, Inst nC CI [(pd', Inst n2 DI kw2)])]), h') \<and>
           constructed h' = constructed h @ cs1 @ [DI, BI] @ cs2 @ [DI, CI, AI]"
proof -
  have cons: "registry_consistent (injector_obj h)"
    by (simp add: reach reachable_consistent)
  have AB: "A \<noteq> B" using scoped_functional [OF cons a] b pa pb by auto
  have AC: "A \<noteq> C" using scoped_functional [OF cons a] c pa pc by auto
  have pbr: "pb \<noteq> ''return''" and pcr: "pc \<noteq> ''return''"
    using constructor_parameter_name [of pb ab AI] constructor_parameter_name [of pc ac AI] pa
    by simp_all
  have stA: "push_stack None A = Some [A]"
    and stB: "push_stack (Some [A]) B = Some [A, B]"
    and stC: "push_stack (Some [A]) C = Some [A, C]"
    by (simp_all add: push_stack_def)
  have slA: "stack_list (Some [A]) = [A]" and slN: "stack_list None = []"
    by (simp_all add: stack_list_def)
  define hB where "hB = snd (resolve h D (Some [A, B]))"
  have runB: "resolve h D (Some [A, B]) = (Inr vB, hB)"
    using dB by (simp add: hB_def prod_eq_iff)
  from resolve_scoped_success [OF cons d runB]
  obtain kw1 h0 cs1 where vB: "vB = Inst (next_id h0) DI kw1"
    and hB: "hB = h0\<lparr>next_id := Suc (next_id h0), constructed := constructed h0 @ [DI]\<rparr>"
    and g0: "constructed h0 = constructed h @ cs1" "next_id h0 = next_id h + length cs1"
    by blast
  have objB: "injector_obj hB = injector_obj h"
    using runB by (rule resolve_injector_eq)
  define h1 where "h1 = hB\<lparr>next_id := Suc (next_id hB), constructed := constructed hB @ [BI]\<rparr>"
  have resB: "resolve h B (Some [A]) = (Inr (Inst (next_id hB) BI [(pd, vB)]), h1)"
    unfolding h1_def
    using resolve_over_one [OF cons b pb ad _ runB [folded stB]] AB by (simp add: slA)
  have obj1: "injector_obj h1 = injector_obj h" by (simp add: h1_def objB)
  from resolve_success_on_other_heap [OF obj1 dC]
  obtain d2 where d2: "fst (resolve h1 D (Some [A, C])) = Inr d2" and sh: "shape d2 = shape vC"
    by blast
  define hC where "hC = snd (resolve h1 D (Some [A, C]))"
  have runC: "resolve h1 D (Some [A, C]) = (Inr d2, hC)"
    using d2 by (simp add: hC_def prod_eq_iff)
  have cons1: "registry_consistent (injector_obj h1)" using cons obj1 by simp
  have d1: "(D, DI) \<in> set (scoped_services (injector_obj h1))" using d obj1 by simp
  from resolve_scoped_success [OF cons1 d1 runC]
  obtain kw2 h0' cs2 where vC: "d2 = Inst (next_id h0') DI kw2"
    and hC: "hC = h0'\<lparr>next_id := Suc (next_id h0'), constructed := constructed h0' @ [DI]\<rparr>"
    and g1: "constructed h0' = constructed h1 @ cs2" "next_id h0' = next_id h1 + length cs2"
    by blast
  define h2 where "h2 = hC\<lparr>next_id := Suc (next_id hC), constructed := constructed hC @ [CI]\<rparr>"
  have c1: "(C, CI) \<in> set (scoped_services (injector_obj h1))" using c obj1 by simp
  have ad1: "injector_interface (injector_obj h1) ad' = Inr D" using ad' obj1 by simp
  have resC: "resolve h1 C (Some [A]) = (Inr (Inst (next_id hC) CI [(pd', d2)]), h2)"
    unfolding h2_def
    using resolve_over_one [OF cons1 c1 pc ad1 _ runC [folded stC]] AC by (simp add: slA)
  have kwA: "resolve_kwargs h A None [(pb, ab), (pc, ac)] [] =
          (Inr [(pb, Inst (next_id hB) BI [(pd, vB)]),
                (pc, Inst (next_id hC) CI [(pd', d2)])], h2)"
    using names ac obj1 by (simp add: pbr pcr ab stA resB resC)
  have resA: "resolve h A None =
          (Inr (Inst (next_id h2) AI
                  [(pb, Inst (next_id hB) BI [(pd, vB)]),
                   (pc, Inst (next_id hC) CI [(pd', d2)])]),
           h2\<lparr>next_id := Suc (next_id h2), constructed := constructed h2 @ [AI]\<rparr>)"
    using resolve_scoped [OF cons a, of None] pa kwA by (simp add: slN)
  have lt: "next_id h0 < next_id h0'"
    using g1(2) by (simp add: h1_def hB)
  have log: "constructed (h2\<lparr>next_id := Suc (next_id h2), constructed := constructed h2 @ [AI]\<rparr>)
               = constructed h @ cs1 @ [DI, BI] @ cs2 @ [DI, CI, AI]"
    by (simp add: h2_def hC g1(1) h1_def hB g0(1))
  from vB sh [unfolded vC] lt resA [unfolded vB vC] log
  show ?thesis by blast
qed

theorem diamond_tolerance_counterexample:
  "scoped_services needy_diamond_injector
     = [(ServiceA, ServiceAImpl), (ServiceB, ServiceBImpl),
        (ServiceC, ServiceCImpl), (ServiceD, ServiceDNeedyImpl)] \<and>
   required needy_diamond_injector ServiceA = [Inr ServiceB, Inr ServiceC] \<and>
   required needy_diamond_injector ServiceB = [Inr ServiceD] \<and>
   required needy_diamond_injector ServiceC = [Inr ServiceD] \<and>
   fst (resolve (heap_of needy_diamond_injector) ServiceA None)
     = Inl (UnimplementedError ''ServiceE'')"
proof (intro conjI)
  show tab: "scoped_services needy_diamond_injector
     = [(ServiceA, ServiceAImpl), (ServiceB, ServiceBImpl),
        (ServiceC, ServiceCImpl), (ServiceD, ServiceDNeedyImpl)]"
    by (simp add: method_defs class_defs)
  show "required needy_diamond_injector ServiceA = [Inr ServiceB, Inr ServiceC]"
    by (simp add: required_def constructor_parameters_def method_defs class_defs)
  show "required needy_diamond_injector ServiceB = [Inr ServiceD]"
    by (simp add: required_def constructor_parameters_def method_defs class_defs)
  show "required needy_diamond_injector ServiceC = [Inr ServiceD]"
    by (simp add: required_def constructor_parameters_def method_defs class_defs)
  show "fst (resolve (heap_of needy_diamond_injector) ServiceA None)
          = Inl (UnimplementedError ''ServiceE'')"
    by (simp add: resolve.simps method_defs class_defs)
qed

theorem diamond_tolerance_witness:
  "set (scoped_services (injector_obj (heap_of diamond_injector)))
     = {(ServiceA, ServiceAImpl), (ServiceB, ServiceBImpl),
        (ServiceC, ServiceCImpl), (ServiceD, ServiceDImpl)} \<and>
   fst (resolve (heap_of diamond_injector) ServiceD (Some [ServiceA, ServiceB]))
     = Inr (Inst 1 ServiceDImpl []) \<and>
   fst (resolve (heap_of diamond_injector) ServiceD (Some [ServiceA, ServiceC]))
     = Inr (Inst 1 ServiceDImpl []) \<and>
   (\<exists>n1 kw1 n2 kw2 nB nC nA h' cs1 cs2.
      Inst 1 ServiceDImpl [] = Inst n1 ServiceDImpl kw1 \<and>
      shape (Inst n2 ServiceDImpl kw2) = shape (Inst 1 ServiceDImpl []) \<and> n1 < n2 \<and>
      resolve (heap_of diamond_injector) ServiceA None =
        (Inr (Inst nA ServiceAImpl
                [(''service_b'', Inst nB ServiceBImpl [(''service_d'', Inst n1 ServiceDImpl kw1)]),
                 (''service_c'', Inst nC ServiceCImpl [(''service_d'', Inst n2 ServiceDImpl kw2)])]),
         h') \<and>
      constructed h'
        = constructed (heap_of diamond_injector) @ cs1 @ [ServiceDImpl, ServiceBImpl]
            @ cs2 @ [ServiceDImpl, ServiceCImpl, ServiceAImpl]) \<and>
   fst (resolve (heap_of diamond_injector) ServiceA None)
     = Inr (Inst 5 ServiceAImpl
              [(''service_b'', Inst 2 ServiceBImpl [(''service_d'', Inst 1 ServiceDImpl [])]),
               (''service_c'', Inst 4 ServiceCImpl [(''service_d'', Inst 3 ServiceDImpl [])])])"
proof -
  let ?h = "heap_of diamond_injector"
  have obj: "injector_obj ?h = diamond_injector" by (simp add: heap_of_def)
  have reach: "injector_obj ?h = registrations new_injector
       [RegisterScoped ServiceA ServiceAImpl, RegisterScoped ServiceB ServiceBImpl,
        RegisterScoped ServiceC ServiceCImpl, RegisterScoped ServiceD ServiceDImpl]"
    by (simp add: heap_of_def diamond_injector_def)
  have tab: "scoped_services diamond_injector
               = [(ServiceA, ServiceAImpl), (ServiceB, ServiceBImpl),
                  (ServiceC, ServiceCImpl), (ServiceD, ServiceDImpl)]"
    by (simp add: method_defs class_defs)
  have a: "(ServiceA, ServiceAImpl) \<in> set (scoped_services (injector_obj ?h))"
    and b: "(ServiceB, ServiceBImpl) \<in> set (scoped_services (injector_obj ?h))"
    and c: "(ServiceC, ServiceCImpl) \<in> set (scoped_services (injector_obj ?h))"
    and d: "(ServiceD, ServiceDImpl) \<in> set (scoped_services (injector_obj ?h))"
    unfolding obj tab by simp_all
  have pa: "constructor_parameters ServiceAImpl
              = [(''service_b'', AStr ''ServiceB''), (''service_c'', AStr ''ServiceC'')]"
    and pb: "constructor_parameters ServiceBImpl = [(''service_d'', AStr ''ServiceD'')]"
    and pc: "constructor_parameters ServiceCImpl = [(''service_d'', AStr ''ServiceD'')]"
    by (simp_all add: constructor_parameters_def ServiceAImpl_def ServiceBImpl_def
                      ServiceCImpl_def)
  have names: "''service_b'' \<noteq> ''service_c''" by simp
  have ab: "injector_interface (injector_obj ?h) (AStr ''ServiceB'') = Inr ServiceB"
    and ac: "injector_interface (injector_obj ?h) (AStr ''ServiceC'') = Inr ServiceC"
    and ad: "injector_interface (injector_obj ?h) (AStr ''ServiceD'') = Inr ServiceD"
    unfolding obj by (simp_all add: method_defs class_defs)
  have dB: "fst (resolve ?h ServiceD (Some [ServiceA, ServiceB])) = Inr (Inst 1 ServiceDImpl [])"
    by (simp add: resolve.simps method_defs class_defs)
  have dC: "fst (resolve ?h ServiceD (Some [ServiceA, ServiceC])) = Inr (Inst 1 ServiceDImpl [])"
    by (simp add: resolve.simps method_defs class_defs)
  have val: "fst (resolve ?h ServiceA None)
     = Inr (Inst 5 ServiceAImpl
              [(''service_b'', Inst 2 ServiceBImpl [(''service_d'', Inst 1 ServiceDImpl [])]),
               (''service_c'', Inst 4 ServiceCImpl [(''service_d'', Inst 3 ServiceDImpl [])])])"
    by (simp add: resolve.simps method_defs class_defs)
  have all: "set (scoped_services (injector_obj ?h))
     = {(ServiceA, ServiceAImpl), (ServiceB, ServiceBImpl),
        (ServiceC, ServiceCImpl), (ServiceD, ServiceDImpl)}"
    unfolding obj tab by simp
  from diamond_tolerance [OF reach a b c d pa names pb pc ab ac ad ad dB dC] all dB dC val
  show ?thesis by blast
qed

end
